theory Spec2Isabelle
  imports Main "HOL-Library.Sublist" "HOL-Library.Char_ord" "HOL-Library.List_Lexorder"
begin

section \<open>Exceptions and effectful computations\<close>

text \<open>
  The Python exception classes that the two source files distinguish. \<open>ImportError\<close>
  is the class tested by \<^verbatim>\<open>isinstance(_, ImportError)\<close> in \<^verbatim>\<open>plugin.py\<close>;
  \<open>ValueError\<close> is what the scanner state raises on a failed match; \<open>NameError\<close>
  and \<open>TypeError\<close> are raised by the interpreter itself. Every class here derives from
  Python's \<^verbatim>\<open>Exception\<close>, the class all handlers of \<^verbatim>\<open>plugin.py\<close> catch.
\<close>

datatype exn = ImportError | NameError | TypeError | ValueError | OtherException

text \<open>
  A statement sequence that mutates a state of type \<open>'s\<close> and either returns a value
  or raises. The state survives a raise: what was mutated before the exception stays
  mutated, as in Python.
\<close>

type_synonym ('a, 's) prog = "'s \<Rightarrow> (exn + 'a) \<times> 's"

definition ret :: "'a \<Rightarrow> ('a, 's) prog" where
  "ret a = (\<lambda>s. (Inr a, s))"

definition raise :: "exn \<Rightarrow> ('a, 's) prog" where
  "raise e = (\<lambda>s. (Inl e, s))"

definition bnd :: "('a, 's) prog \<Rightarrow> ('a \<Rightarrow> ('b, 's) prog) \<Rightarrow> ('b, 's) prog" where
  "bnd m f = (\<lambda>s. case m s of (Inl e, s') \<Rightarrow> (Inl e, s') | (Inr a, s') \<Rightarrow> f a s')"

definition seq :: "('a, 's) prog \<Rightarrow> ('b, 's) prog \<Rightarrow> ('b, 's) prog" where
  "seq m k = bnd m (\<lambda>_. k)"

text \<open>\<^verbatim>\<open>try: body  except Exception as e: handler(e)\<close>\<close>

definition try_except :: "('a, 's) prog \<Rightarrow> (exn \<Rightarrow> ('a, 's) prog) \<Rightarrow> ('a, 's) prog" where
  "try_except body handler =
     (\<lambda>s. case body s of (Inl e, s') \<Rightarrow> handler e s' | (Inr a, s') \<Rightarrow> (Inr a, s'))"

section \<open>Regular expressions as Python's \<^verbatim>\<open>re\<close> matches them\<close>

text \<open>
  The constructs that occur in the pattern of \<^verbatim>\<open>scan_command_set\<close>. Matching is by
  backtracking: \<open>rmatch r s caps\<close> lists, in the order the backtracking matcher tries
  them, every way \<open>r\<close> can match a prefix of the remaining subject \<open>s\<close>; each entry is
  the subject left over and the named groups captured so far. The match that
  \<^verbatim>\<open>re\<close> reports is the first entry.
\<close>

datatype regex =
    AnyChar                 \<comment> \<open>\<^verbatim>\<open>.\<close>: any character except a newline\<close>
  | OneOf "char list"       \<comment> \<open>\<^verbatim>\<open>[...]\<close>: a character set\<close>
  | EndAnchor               \<comment> \<open>\<^verbatim>\<open>$\<close>: the end of the subject, or just before its final newline\<close>
  | Cat regex regex         \<comment> \<open>concatenation\<close>
  | LazyPlus regex          \<comment> \<open>\<^verbatim>\<open>r+?\<close>: one or more, as few as possible\<close>
  | Optional regex          \<comment> \<open>\<^verbatim>\<open>(?:r)?\<close>: zero or one, one preferred\<close>
  | Named string regex      \<comment> \<open>\<^verbatim>\<open>(?P<name>r)\<close>: a named capturing group\<close>

definition newline :: char where
  "newline = CHR 0x0A"

type_synonym captures = "string \<rightharpoonup> string"

function rmatch :: "regex \<Rightarrow> string \<Rightarrow> captures \<Rightarrow> (string \<times> captures) list" where
  "rmatch AnyChar s caps =
     (case s of [] \<Rightarrow> [] | c # cs \<Rightarrow> if c \<noteq> newline then [(cs, caps)] else [])"
| "rmatch (OneOf cls) s caps =
     (case s of [] \<Rightarrow> [] | c # cs \<Rightarrow> if c \<in> set cls then [(cs, caps)] else [])"
| "rmatch EndAnchor s caps = (if s = [] \<or> s = [newline] then [(s, caps)] else [])"
| "rmatch (Cat r1 r2) s caps =
     concat (map (\<lambda>x. rmatch r2 (fst x) (snd x)) (rmatch r1 s caps))"
| "rmatch (LazyPlus r) s caps =
     concat (map (\<lambda>x. x # rmatch (LazyPlus r) (fst x) (snd x))
                 (filter (\<lambda>x. length (fst x) < length s) (rmatch r s caps)))"
| "rmatch (Optional r) s caps = rmatch r s caps @ [(s, caps)]"
| "rmatch (Named n r) s caps =
     map (\<lambda>x. (fst x, (snd x)(n \<mapsto> take (length s - length (fst x)) s))) (rmatch r s caps)"
  by pat_completeness auto
termination
  by (relation "measures [\<lambda>(r, s, caps). size r, \<lambda>(r, s, caps). length s]") auto

fun group_names :: "regex \<Rightarrow> string list" where
  "group_names (Cat r1 r2) = group_names r1 @ group_names r2"
| "group_names (LazyPlus r) = group_names r"
| "group_names (Optional r) = group_names r"
| "group_names (Named n r) = n # group_names r"
| "group_names _ = []"

text \<open>
  A match object: the number of characters matched (\<^verbatim>\<open>m.end() - m.start()\<close>) and the
  captured groups. \<^verbatim>\<open>m.groupdict()\<close> has one entry for every named group of the
  pattern, \<^verbatim>\<open>None\<close> for a group that took no part in the match.
\<close>

record match =
  span :: nat
  groups :: captures
  names :: "string list"

definition groupdict :: "match \<Rightarrow> (string \<times> string option) list" where
  "groupdict m = map (\<lambda>n. (n, groups m n)) (names m)"

text \<open>\<^verbatim>\<open>re.compile(pattern).match(source, pos)\<close>\<close>

definition re_match :: "regex \<Rightarrow> string \<Rightarrow> nat \<Rightarrow> match option" where
  "re_match pattern source pos =
     (case rmatch pattern (drop pos source) Map.empty of
        [] \<Rightarrow> None
      | x # _ \<Rightarrow> Some \<lparr>span = length (drop pos source) - length (fst x),
                       groups = snd x, names = group_names pattern\<rparr>)"

section \<open>The scanner state\<close>

text \<open>
  Modelled from the spec: the scanner state class (\<^verbatim>\<open>lib/ex/parser/state.py\<close>) is not
  among the sources; \<^verbatim>\<open>scan_command_set\<close> calls its methods \<^verbatim>\<open>skip\<close>,
  \<^verbatim>\<open>ignore\<close> and \<^verbatim>\<open>expect_match\<close>. The state scans a "raw command-line substring":
  it holds the command line, the position of the scanner in it, and the start of the
  text not yet emitted. \<^verbatim>\<open>skip(c)\<close> moves the position over a run of the character
  \<open>c\<close>; \<^verbatim>\<open>ignore()\<close> discards what was passed over; \<^verbatim>\<open>expect_match(pattern)\<close>
  matches the pattern at the position, moves the position past the match and returns the
  match object, and raises \<^verbatim>\<open>ValueError\<close> when the pattern does not match there.
\<close>

record scanner_state =
  source :: string
  position :: nat
  start :: nat

definition remainder :: "scanner_state \<Rightarrow> string" where
  "remainder st = drop (position st) (source st)"

definition skip :: "char \<Rightarrow> (unit, scanner_state) prog" where
  "skip c = (\<lambda>st. (Inr (),
     st\<lparr>position := position st + length (takeWhile (\<lambda>x. x = c) (remainder st))\<rparr>))"

definition ignore :: "(unit, scanner_state) prog" where
  "ignore = (\<lambda>st. (Inr (), st\<lparr>start := position st\<rparr>))"

definition expect_match :: "regex \<Rightarrow> (match, scanner_state) prog" where
  "expect_match pattern =
     (\<lambda>st. case re_match pattern (source st) (position st) of
              None \<Rightarrow> (Inl ValueError, st)
            | Some m \<Rightarrow> (Inr m, st\<lparr>position := position st + span m\<rparr>))"

section \<open>Command tokens\<close>

text \<open>
  Modelled from the spec: the token base classes (\<^verbatim>\<open>tokens_base.py\<close>, \<^verbatim>\<open>tokens.py\<close>)
  are not among the sources. A command token is "an identifier (command name), a set of
  parsed parameters (string-keyed, command-specific), and a reference to the editor
  command it should invoke". \<^verbatim>\<open>TokenSet.__init__\<close> passes its \<open>params\<close>, the token
  type \<^verbatim>\<open>TOKEN_COMMAND_SET\<close> and the name \<^verbatim>\<open>'set'\<close> to the base class and then sets
  \<^verbatim>\<open>target_command\<close>. A parameter is a string or Python's \<^verbatim>\<open>None\<close>.
\<close>

datatype token_type = TOKEN_COMMAND_SET | TOKEN_EOF

type_synonym params = "string \<rightharpoonup> string option"

record command_token =
  token_type :: token_type
  content :: string
  params :: params
  target_command :: string

datatype token = TokenOfCommand command_token | TokenEof

definition TokenSet :: "params \<Rightarrow> token" where
  "TokenSet ps = TokenOfCommand
     \<lparr>token_type = TOKEN_COMMAND_SET, content = ''set'', params = ps,
      target_command = ''ex_set''\<rparr>"

text \<open>The properties \<^verbatim>\<open>TokenSet.value\<close> and \<^verbatim>\<open>TokenSet.option\<close>: a dictionary lookup,
  which raises \<^verbatim>\<open>KeyError\<close> (here \<open>None\<close>) on a missing key.\<close>

fun token_value :: "token \<Rightarrow> string option option" where
  "token_value (TokenOfCommand t) = params t ''value''"
| "token_value TokenEof = None"

fun token_option :: "token \<Rightarrow> string option option" where
  "token_option (TokenOfCommand t) = params t ''option''"
| "token_option TokenEof = None"

section \<open>\<^verbatim>\<open>scan_command_set\<close>\<close>

text \<open>The pattern \<^verbatim>\<open>(?P<option>.+?)(?:[:=](?P<value>.+?))?$\<close>.\<close>

definition set_pattern :: regex where
  "set_pattern =
     Cat (Named ''option'' (LazyPlus AnyChar))
         (Cat (Optional (Cat (OneOf '':='') (Named ''value'' (LazyPlus AnyChar))))
              EndAnchor)"

text \<open>\<^verbatim>\<open>dict.update\<close> with a dictionary, given as its items.\<close>

definition dict_update :: "('k \<rightharpoonup> 'v) \<Rightarrow> ('k \<times> 'v) list \<Rightarrow> ('k \<rightharpoonup> 'v)" where
  "dict_update d kvs = fold (\<lambda>kv m. m(fst kv \<mapsto> snd kv)) kvs d"

text \<open>
  The function returns the pair of the next scanner function, which is \<^verbatim>\<open>None\<close>, and
  the list of tokens.
\<close>

definition scan_command_set :: "(unit option \<times> token list, scanner_state) prog" where
  "scan_command_set =
     (let params = [''option'' \<mapsto> None, ''value'' \<mapsto> None] in
      seq (skip CHR '' '')
     (seq ignore
     (bnd (expect_match set_pattern) (\<lambda>m.
      let params = dict_update params (groupdict m) in
      ret (None, [TokenSet params, TokenEof])))))"

section \<open>The host editor\<close>

text \<open>
  The host's settings store is an "opaque key-value service". A settings value is a
  boolean, a string or a list of strings; \<^verbatim>\<open>ignored_packages\<close> is by the host's
  contract a list of package names.
\<close>

datatype setting = Bool bool | Str string | StrList "string list"

type_synonym settings = "string \<rightharpoonup> setting"

text \<open>A view is identified with its settings object; a window is the list of its views.\<close>

type_synonym view = settings
type_synonym window = "view list"

text \<open>
  What the plugin makes visible outside the settings of the views: console output,
  dialogs, and the writes to the preferences and to the preferences file.
\<close>

datatype event =
    Print string                  \<comment> \<open>\<^verbatim>\<open>print(...)\<close>\<close>
  | PrintExc exn                  \<comment> \<open>\<^verbatim>\<open>traceback.print_exc()\<close> for the exception being handled\<close>
  | MessageDialog string          \<comment> \<open>\<^verbatim>\<open>sublime.message_dialog(message)\<close>\<close>
  | SettingsSet string setting    \<comment> \<open>\<^verbatim>\<open>settings.set(key, value)\<close> on the preferences\<close>
  | SaveSettings string           \<comment> \<open>\<^verbatim>\<open>sublime.save_settings(name)\<close>\<close>

record editor =
  preferences :: settings         \<comment> \<open>\<^verbatim>\<open>Preferences.sublime-settings\<close>\<close>
  windows :: "window list"
  active_view :: "(nat \<times> nat) option"  \<comment> \<open>window and view index; \<^verbatim>\<open>None\<close> as at startup on an image\<close>
  log :: "event list"

text \<open>
  The calls into the host and into Package Control. Each of them may raise; which ones
  do, and what the calls that return a value return, is given by a \<open>host\<close>. Calls made
  in the loops of \<^verbatim>\<open>_cleanup_views\<close> carry the indices of the window and of the view.
\<close>

datatype call =
    ImportPackageControl | EventsInstall | EventsPostUpgrade
  | LoadSettings | SettingsGet | CallSettingsSet | CallSaveSettings
  | ActiveView
  | Windows | Views nat | ViewSettings nat nat
  | ViewSet nat nat string | ViewErase nat nat string
  | CallMessageDialog

text \<open>
  Modelled from the spec: \<^verbatim>\<open>init_state\<close> (\<^verbatim>\<open>lib/state.py\<close>) is not among the sources.
  It is the "view-state initialization": here any function that, given the view, changes
  the views of the editor, and that may raise after having changed them.
\<close>

record host =
  fails :: "call \<Rightarrow> exn option"
  install :: bool                 \<comment> \<open>truth value of \<^verbatim>\<open>events.install('NeoVintageous')\<close>\<close>
  post_upgrade :: bool            \<comment> \<open>truth value of \<^verbatim>\<open>events.post_upgrade('NeoVintageous')\<close>\<close>
  init_state :: "nat \<times> nat \<Rightarrow> window list \<Rightarrow> exn option \<times> window list"

definition host_call :: "host \<Rightarrow> call \<Rightarrow> (unit, 's) prog" where
  "host_call h c = (case fails h c of None \<Rightarrow> ret () | Some e \<Rightarrow> raise e)"

definition emit :: "event \<Rightarrow> (unit, 'a editor_scheme) prog" where
  "emit ev = (\<lambda>ed. (Inr (), ed\<lparr>log := log ed @ [ev]\<rparr>))"

definition print_exc :: "exn \<Rightarrow> (unit, 'a editor_scheme) prog" where
  "print_exc e = emit (PrintExc e)"

fun for_each :: "'a list \<Rightarrow> ('a \<Rightarrow> (unit, 's) prog) \<Rightarrow> (unit, 's) prog" where
  "for_each [] body = ret ()"
| "for_each (x # xs) body = seq (body x) (for_each xs body)"

subsection \<open>\<^verbatim>\<open>_update_ignored_packages\<close>\<close>

definition settings_get :: "host \<Rightarrow> string \<Rightarrow> setting \<Rightarrow> (setting, 'a editor_scheme) prog" where
  "settings_get h key dflt =
     seq (host_call h SettingsGet)
         (\<lambda>ed. (Inr (case preferences ed key of None \<Rightarrow> dflt | Some v \<Rightarrow> v), ed))"

definition settings_set :: "host \<Rightarrow> string \<Rightarrow> setting \<Rightarrow> (unit, 'a editor_scheme) prog" where
  "settings_set h key v =
     seq (emit (SettingsSet key v))
    (seq (host_call h CallSettingsSet)
         (\<lambda>ed. (Inr (), ed\<lparr>preferences := (preferences ed)(key \<mapsto> v)\<rparr>)))"

definition save_settings :: "host \<Rightarrow> string \<Rightarrow> (unit, 'a editor_scheme) prog" where
  "save_settings h name = seq (emit (SaveSettings name)) (host_call h CallSaveSettings)"

text \<open>
  \<^verbatim>\<open>x in v\<close>: membership in a list, substring of a string, \<^verbatim>\<open>TypeError\<close> on a
  boolean.
\<close>

fun py_in :: "string \<Rightarrow> setting \<Rightarrow> exn + bool" where
  "py_in x (StrList xs) = Inr (x \<in> set xs)"
| "py_in x (Str s) = Inr (sublist x s)"
| "py_in x (Bool b) = Inl TypeError"

text \<open>\<^verbatim>\<open>[x for x in names if x not in v]\<close>\<close>

fun not_in :: "string list \<Rightarrow> setting \<Rightarrow> exn + string list" where
  "not_in [] v = Inr []"
| "not_in (x # xs) v =
     (case py_in x v of
        Inl e \<Rightarrow> Inl e
      | Inr b \<Rightarrow> (case not_in xs v of
                   Inl e \<Rightarrow> Inl e
                 | Inr ys \<Rightarrow> Inr (if b then ys else x # ys)))"

text \<open>\<^verbatim>\<open>sorted(v + ys)\<close>: only a list can be concatenated with a list.\<close>

fun sorted_concat :: "setting \<Rightarrow> string list \<Rightarrow> exn + string list" where
  "sorted_concat (StrList xs) ys = Inr (sort (xs @ ys))"
| "sorted_concat _ ys = Inl TypeError"

definition lift :: "exn + 'a \<Rightarrow> ('a, 's) prog" where
  "lift r = (case r of Inl e \<Rightarrow> raise e | Inr a \<Rightarrow> ret a)"

text \<open>\<^verbatim>\<open>'{}'.format(names)\<close> for a list of names without quotes or escapes in them.\<close>

fun join :: "string \<Rightarrow> string list \<Rightarrow> string" where
  "join sep [] = []"
| "join sep [x] = x"
| "join sep (x # xs) = x @ sep @ join sep xs"

definition repr_names :: "string list \<Rightarrow> string" where
  "repr_names xs = ''['' @ join '', '' (map (\<lambda>x. [CHR 0x27] @ x @ [CHR 0x27]) xs) @ '']''"

definition update_ignored_packages :: "host \<Rightarrow> (unit, 'a editor_scheme) prog" where
  "update_ignored_packages h =
     seq (host_call h LoadSettings)
    (bnd (settings_get h ''ignored_packages'' (StrList [])) (\<lambda>ignored_packages.
     bnd (lift (not_in [''Six'', ''Vintage'', ''Vintageous''] ignored_packages))
       (\<lambda>conflict_packages.
     if conflict_packages \<noteq> [] then
       seq (emit (Print (''NeoVintageous: update ignored packages with conflicts ''
                         @ repr_names conflict_packages)))
      (bnd (lift (sorted_concat ignored_packages conflict_packages)) (\<lambda>ignored_packages.
       seq (settings_set h ''ignored_packages'' (StrList ignored_packages))
           (save_settings h ''Preferences.sublime-settings'')))
     else ret ())))"

subsection \<open>\<^verbatim>\<open>_cleanup_views\<close>\<close>

definition map_view :: "nat \<Rightarrow> nat \<Rightarrow> (view \<Rightarrow> view) \<Rightarrow> window list \<Rightarrow> window list" where
  "map_view i j f ws = ws[i := (ws ! i)[j := f (ws ! i ! j)]]"

definition view_set :: "host \<Rightarrow> nat \<Rightarrow> nat \<Rightarrow> string \<Rightarrow> setting \<Rightarrow> (unit, 'a editor_scheme) prog" where
  "view_set h i j key v =
     seq (host_call h (ViewSet i j key))
         (\<lambda>ed. (Inr (), ed\<lparr>windows := map_view i j (\<lambda>s. s(key \<mapsto> v)) (windows ed)\<rparr>))"

definition view_erase :: "host \<Rightarrow> nat \<Rightarrow> nat \<Rightarrow> string \<Rightarrow> (unit, 'a editor_scheme) prog" where
  "view_erase h i j key =
     seq (host_call h (ViewErase i j key))
         (\<lambda>ed. (Inr (), ed\<lparr>windows := map_view i j (\<lambda>s. s(key := None)) (windows ed)\<rparr>))"

text \<open>\<^verbatim>\<open>sublime.windows()\<close> and \<^verbatim>\<open>window.views()\<close>, as lists of indices.\<close>

definition get_windows :: "host \<Rightarrow> (nat list, 'a editor_scheme) prog" where
  "get_windows h =
     seq (host_call h Windows) (\<lambda>ed. (Inr [0..<length (windows ed)], ed))"

definition get_views :: "host \<Rightarrow> nat \<Rightarrow> (nat list, 'a editor_scheme) prog" where
  "get_views h i =
     seq (host_call h (Views i)) (\<lambda>ed. (Inr [0..<length (windows ed ! i)], ed))"

definition cleanup_views :: "host \<Rightarrow> (unit, 'a editor_scheme) prog" where
  "cleanup_views h =
     bnd (get_windows h) (\<lambda>ws.
     for_each ws (\<lambda>i.
       bnd (get_views h i) (\<lambda>vs.
       for_each vs (\<lambda>j.
         seq (host_call h (ViewSettings i j))
        (seq (view_set h i j ''command_mode'' (Bool False))
        (seq (view_set h i j ''inverse_caret_state'' (Bool False))
             (view_erase h i j ''vintage'')))))))"

section \<open>\<^verbatim>\<open>plugin.py\<close>\<close>

subsection \<open>Loading the module\<close>

text \<open>
  The imports of lines 17 to 43, in their order. The first one binds \<^verbatim>\<open>init_state\<close>.
  The module's namespace keeps \<^verbatim>\<open>_EXCEPTION\<close>; what \<^verbatim>\<open>traceback.print_exc()\<close>
  prints goes to the console, the editor's API not being available yet.
\<close>

datatype import =
    LibState | LibCommands | CmdsExActions | CmdsViActions | CmdsViMotions
  | ExtrasSurround | ExtrasUnimpaired | ExtrasAbolish | LibEvents

record module =
  EXCEPTION :: "exn option"
  init_state_bound :: bool
  console :: "event list"

definition fresh_module :: module where
  "fresh_module = \<lparr>EXCEPTION = None, init_state_bound = False, console = []\<rparr>"

definition import_from :: "(import \<Rightarrow> exn option) \<Rightarrow> import \<Rightarrow> (unit, 's) prog" where
  "import_from imp i = (case imp i of None \<Rightarrow> ret () | Some e \<Rightarrow> raise e)"

definition load_module :: "(import \<Rightarrow> exn option) \<Rightarrow> (unit, module) prog" where
  "load_module imp =
     try_except
       (seq (\<lambda>m. (Inr (), m\<lparr>EXCEPTION := None\<rparr>))
       (seq (import_from imp LibState)
       (seq (\<lambda>m. (Inr (), m\<lparr>init_state_bound := True\<rparr>))
            (for_each [LibCommands, CmdsExActions, CmdsViActions, CmdsViMotions,
                       ExtrasSurround, ExtrasUnimpaired, ExtrasAbolish, LibEvents]
               (import_from imp)))))
       (\<lambda>e. seq (\<lambda>m. (Inr (), m\<lparr>EXCEPTION := Some e\<rparr>))
                 (\<lambda>m. (Inr (), m\<lparr>console := console m @ [PrintExc e]\<rparr>)))"

subsection \<open>\<^verbatim>\<open>plugin_loaded\<close>\<close>

text \<open>
  The local variables of \<^verbatim>\<open>plugin_loaded\<close> that are assigned inside a
  \<^verbatim>\<open>try\<close> and read after it live in the state, next to the editor: an assignment made
  before the exception is still there in the handler and after it.
\<close>

record frame = editor +
  pc_event :: "string option"
  exception :: "exn option"

definition enter :: "editor \<Rightarrow> frame" where
  "enter ed = \<lparr>preferences = preferences ed, windows = windows ed,
               active_view = active_view ed, log = log ed,
               pc_event = None, exception = None\<rparr>"

definition leave :: "frame \<Rightarrow> editor" where
  "leave f = \<lparr>preferences = preferences f, windows = windows f,
              active_view = active_view f, log = log f\<rparr>"

text \<open>Lines 86 to 97.\<close>

definition query_package_control :: "host \<Rightarrow> (unit, frame) prog" where
  "query_package_control h =
     try_except
       (seq (\<lambda>f. (Inr (), f\<lparr>pc_event := None\<rparr>))
       (seq (host_call h ImportPackageControl)
       (seq (bnd (seq (host_call h EventsInstall) (ret (install h))) (\<lambda>b.
               if b then (\<lambda>f. (Inr (), f\<lparr>pc_event := Some ''install''\<rparr>)) else ret ()))
            (bnd (seq (host_call h EventsPostUpgrade) (ret (post_upgrade h))) (\<lambda>b.
               if b then (\<lambda>f. (Inr (), f\<lparr>pc_event := Some ''post_upgrade''\<rparr>)) else ret ())))))
       (\<lambda>e. if e = ImportError then ret () else print_exc e)"

text \<open>\<^verbatim>\<open>init_state(view, new_session=True)\<close>; the name is unbound when its import failed.\<close>

definition call_init_state :: "host \<Rightarrow> module \<Rightarrow> nat \<times> nat \<Rightarrow> (unit, 'a editor_scheme) prog" where
  "call_init_state h md v =
     (if init_state_bound md then
        (\<lambda>ed. case init_state h v (windows ed) of
                (r, ws) \<Rightarrow> (case r of None \<Rightarrow> Inr () | Some e \<Rightarrow> Inl e, ed\<lparr>windows := ws\<rparr>))
      else raise NameError)"

text \<open>Lines 105 to 122.\<close>

definition init_view_state :: "host \<Rightarrow> module \<Rightarrow> (unit, frame) prog" where
  "init_view_state h md =
     try_except
       (seq (\<lambda>f. (Inr (), f\<lparr>exception := None\<rparr>))
       (bnd (seq (host_call h ActiveView) (\<lambda>f. (Inr (active_view f), f))) (\<lambda>view.
          case view of Some v \<Rightarrow> call_init_state h md v | None \<Rightarrow> ret ())))
       (\<lambda>e. seq (\<lambda>f. (Inr (), f\<lparr>exception := Some e\<rparr>)) (print_exc e))"

definition message_dialog :: "host \<Rightarrow> string \<Rightarrow> (unit, 'a editor_scheme) prog" where
  "message_dialog h message = seq (emit (MessageDialog message)) (host_call h CallMessageDialog)"

text \<open>Lines 132 to 145.\<close>

definition error_message :: "module \<Rightarrow> frame \<Rightarrow> string" where
  "error_message md f =
     (if EXCEPTION md = Some ImportError \<or> exception f = Some ImportError then
        (if pc_event f = Some ''post_upgrade'' then
           ''Failed to load some modules trying to upgrade NeoVintageous. '' @
           ''Please restart Sublime Text to finish the upgrade.''
         else
           ''Failed to load some NeoVintageous modules. '' @
           ''Please restart Sublime Text.'')
      else
        (if pc_event f = Some ''post_upgrade'' then
           ''An error occurred trying to upgrade NeoVintageous. '' @
           ''Please restart Sublime Text to finish the upgrade.''
         else
           ''An error occurred trying to load NeoVintageous. '' @
           ''Please restart Sublime Text.''))"

text \<open>Lines 124 to 148: the branch taken when an exception was recorded.\<close>

definition on_error :: "host \<Rightarrow> module \<Rightarrow> (unit, frame) prog" where
  "on_error h md =
     seq (try_except (cleanup_views h) (\<lambda>e. print_exc e))
         (\<lambda>f. (let message = error_message md f in
               seq (emit (Print (''NeoVintageous: '' @ message)))
                   (message_dialog h message)) f)"

definition plugin_loaded_body :: "host \<Rightarrow> module \<Rightarrow> (unit, frame) prog" where
  "plugin_loaded_body h md =
     seq (query_package_control h)
    (seq (try_except (update_ignored_packages h) (\<lambda>e. print_exc e))
    (seq (init_view_state h md)
         (\<lambda>f. (if EXCEPTION md \<noteq> None \<or> exception f \<noteq> None then on_error h md
               else ret ()) f)))"

definition plugin_loaded :: "host \<Rightarrow> module \<Rightarrow> (unit, editor) prog" where
  "plugin_loaded h md = (\<lambda>ed. case plugin_loaded_body h md (enter ed) of (r, f) \<Rightarrow> (r, leave f))"

subsection \<open>\<^verbatim>\<open>plugin_unloaded\<close>\<close>

definition plugin_unloaded :: "host \<Rightarrow> (unit, editor) prog" where
  "plugin_unloaded h = try_except (cleanup_views h) (\<lambda>e. print_exc e)"

section \<open>Notions used in the statements and proofs\<close>

text \<open>The number of characters before the first newline of a subject.\<close>

definition line_len :: "string \<Rightarrow> nat" where
  "line_len s = length (takeWhile (\<lambda>x. x \<noteq> newline) s)"

text \<open>The part of the pattern after the option group, matched on its own.\<close>

definition set_tail :: "string \<Rightarrow> captures \<Rightarrow> (string \<times> captures) list" where
  "set_tail t c =
     rmatch (Cat (Optional (Cat (OneOf '':='') (Named ''value'' (LazyPlus AnyChar)))) EndAnchor) t c"

text \<open>The matches of the value group that end at the end anchor.\<close>

definition value_matches :: "string \<Rightarrow> captures \<Rightarrow> (string \<times> captures) list" where
  "value_matches v c =
     concat (map (\<lambda>j. rmatch EndAnchor (drop (Suc j) v) (c(''value'' \<mapsto> take (Suc j) v)))
                 [0..<line_len v])"

text \<open>The parameters that \<^verbatim>\<open>scan_command_set\<close> builds from the captured groups.\<close>

definition set_params :: "captures \<Rightarrow> params" where
  "set_params caps = [''option'' \<mapsto> caps ''option'', ''value'' \<mapsto> caps ''value'']"

text \<open>The argument of the command: the text at the position of the scanner, leading spaces skipped.\<close>

definition argument :: "scanner_state \<Rightarrow> string" where
  "argument st = dropWhile (\<lambda>c. c = CHR '' '') (remainder st)"

section \<open>Running statement sequences\<close>

lemma ret_apply: "ret a s = (Inr a, s)"
  by (simp add: ret_def)
lemma raise_apply: "raise e s = (Inl e, s)"
  by (simp add: raise_def)
lemma bnd_apply: "bnd m f s = (case m s of (Inl e, s') \<Rightarrow> (Inl e, s') | (Inr a, s') \<Rightarrow> f a s')"
  by (simp add: bnd_def)
lemma seq_apply: "seq m k s = (case m s of (Inl e, s') \<Rightarrow> (Inl e, s') | (Inr a, s') \<Rightarrow> k s')"
  by (simp add: seq_def bnd_def)

section \<open>Lazy repetition\<close>

text \<open>
  The equation of \<open>rmatch\<close> for \<open>LazyPlus\<close> mentions \<open>rmatch\<close> on the same
  regular expression again, so it is unfolded by hand, one step at a time.
\<close>

declare rmatch.simps(5) [simp del]

lemma line_len_le: "line_len s \<le> length s"
  by (simp add: line_len_def length_takeWhile_le)

lemma rmatch_lazy_any:
  "rmatch (LazyPlus AnyChar) s c = map (\<lambda>k. (drop (Suc k) s, c)) [0..<line_len s]"
proof (induction s)
  case Nil
  show ?case by (subst rmatch.simps(5)) (simp add: line_len_def)
next
  case (Cons x xs)
  show ?case
  proof (cases "x = newline")
    case True
    then show ?thesis by (subst rmatch.simps(5)) (simp add: line_len_def)
  next
    case False
    have "rmatch (LazyPlus AnyChar) (x # xs) c = (xs, c) # rmatch (LazyPlus AnyChar) xs c"
      using False by (subst rmatch.simps(5)) simp
    also have "\<dots> = (xs, c) # map (\<lambda>k. (drop (Suc k) xs, c)) [0..<line_len xs]"
      by (simp only: Cons.IH)
    also have "\<dots> = map (\<lambda>k. (drop (Suc k) (x # xs), c)) [0..<Suc (line_len xs)]"
      by (simp add: map_upt_Suc del: upt_Suc)
    finally show ?thesis using False by (simp add: line_len_def)
  qed
qed

lemma rmatch_named_lazy_any:
  "rmatch (Named n (LazyPlus AnyChar)) s c =
     map (\<lambda>k. (drop (Suc k) s, c(n \<mapsto> take (Suc k) s))) [0..<line_len s]"
proof -
  have len: "length s - length (drop (Suc k) s) = Suc k" if "k \<in> set [0..<line_len s]" for k
  proof -
    from that have "Suc k \<le> line_len s" by simp
    then have "Suc k \<le> length s" using line_len_le[of s] by (rule order_trans)
    then show ?thesis by simp
  qed
  have "rmatch (Named n (LazyPlus AnyChar)) s c =
          map (\<lambda>k. (drop (Suc k) s, c(n \<mapsto> take (length s - length (drop (Suc k) s)) s)))
              [0..<line_len s]"
    unfolding rmatch.simps(7) rmatch_lazy_any map_map o_def fst_conv snd_conv ..
  also have "\<dots> = map (\<lambda>k. (drop (Suc k) s, c(n \<mapsto> take (Suc k) s))) [0..<line_len s]"
    by (rule map_cong[OF refl]) (simp only: len)
  finally show ?thesis .
qed


section \<open>What the pattern of \<^verbatim>\<open>scan_command_set\<close> matches\<close>

lemma concat_map_first:
  assumes "K < n" and "\<And>k. k < K \<Longrightarrow> g k = []"
  shows "concat (map g [0..<n]) = g K @ concat (map g [Suc K..<n])"
proof -
  have "[0..<n] = [0..<K] @ K # [Suc K..<n]"
    using assms(1) by (metis less_imp_add_positive upt_add_eq_append upt_conv_Cons zero_le add.commute less_or_eq_imp_le)
  moreover have "concat (map g [0..<K]) = []"
    using assms(2) by simp
  ultimately show ?thesis by simp
qed

lemma line_len_no_newline: "newline \<notin> set s \<Longrightarrow> line_len s = length s"
proof -
  assume "newline \<notin> set s"
  then have "takeWhile (\<lambda>x. x \<noteq> newline) s = s"
    by (auto simp: takeWhile_eq_all_conv)
  then show ?thesis unfolding line_len_def by (rule arg_cong)
qed

lemma set_tail_unfold:
  "set_tail t c =
     (case t of [] \<Rightarrow> []
      | a # v \<Rightarrow> if a = CHR '':'' \<or> a = CHR ''='' then value_matches v c else [])
     @ rmatch EndAnchor t c"
  by (simp add: set_tail_def value_matches_def rmatch_named_lazy_any map_concat o_def
           split: list.split del: rmatch.simps(3) rmatch.simps(7))

lemma rmatch_set_pattern:
  "rmatch set_pattern s c =
     concat (map (\<lambda>k. set_tail (drop (Suc k) s) (c(''option'' \<mapsto> take (Suc k) s)))
                 [0..<line_len s])"
  unfolding set_pattern_def rmatch.simps(4)[of "Named _ _"] rmatch_named_lazy_any
    set_tail_def map_map o_def fst_conv snd_conv ..


lemma not_at_end: "t \<noteq> [] \<Longrightarrow> newline \<notin> set t \<Longrightarrow> rmatch EndAnchor t c = []"
  by (cases t) auto

lemma value_matches_Nil: "value_matches [] c = []"
  by (simp add: value_matches_def line_len_def)

lemma value_matches_line:
  assumes "v \<noteq> []" and "newline \<notin> set v"
  shows "value_matches v c = [([], c(''value'' \<mapsto> v))]"
proof -
  let ?g = "\<lambda>j. rmatch EndAnchor (drop (Suc j) v) (c(''value'' \<mapsto> take (Suc j) v))"
  obtain K where K: "length v = Suc K"
    using assms(1) by (cases v) auto
  have early: "?g k = []" if "k < K" for k
  proof (rule not_at_end)
    show "drop (Suc k) v \<noteq> []" using that K by simp
    show "newline \<notin> set (drop (Suc k) v)" using assms(2) by (auto dest: in_set_dropD)
  qed
  have "value_matches v c = concat (map ?g [0..<Suc K])"
    by (simp only: value_matches_def line_len_no_newline[OF assms(2)] K)
  also have "\<dots> = ?g K @ concat (map ?g [Suc K..<Suc K])"
    by (rule concat_map_first) (simp, rule early)
  also have "\<dots> = [([], c(''value'' \<mapsto> v))]"
    using K by simp
  finally show ?thesis .
qed

lemma set_tail_Nil: "set_tail [] c = [([], c)]"
  by (simp add: set_tail_unfold)

lemma set_tail_plain:
  assumes "t \<noteq> []" and "hd t \<noteq> CHR '':''" and "hd t \<noteq> CHR ''=''" and "rmatch EndAnchor t c = []"
  shows "set_tail t c = []"
  using assms by (cases t) (simp_all add: set_tail_unfold del: rmatch.simps(3))

lemma set_tail_separator:
  assumes "a = CHR '':'' \<or> a = CHR ''=''"
  shows "set_tail [a] c = []"
  using assms by (auto simp add: set_tail_unfold value_matches_Nil newline_def)

lemma set_tail_value:
  assumes "a = CHR '':'' \<or> a = CHR ''=''" and "v \<noteq> []" and "newline \<notin> set v"
  shows "set_tail (a # v) c = [([], c(''value'' \<mapsto> v))]"
proof -
  have "rmatch EndAnchor (a # v) c = []"
    using assms(2) by (cases v) simp_all
  then show ?thesis
    using assms(1) by (simp add: set_tail_unfold value_matches_line[OF assms(2,3)] del: rmatch.simps(3))
qed

lemma drop_skip:
  "drop (p + length (takeWhile P (drop p s))) s = dropWhile P (drop p s)"
  by (simp add: dropWhile_eq_drop add.commute)

lemma scan_command_set_run:
  "fst (scan_command_set st) =
     (case rmatch set_pattern (argument st) Map.empty of
        [] \<Rightarrow> Inl ValueError
      | x # _ \<Rightarrow> Inr (None, [TokenSet (set_params (snd x)), TokenEof]))"
proof -
  have params: "dict_update [''option'' \<mapsto> None, ''value'' \<mapsto> None]
                  [(''option'', g ''option''), (''value'', g ''value'')]
                = [''option'' \<mapsto> g ''option'', ''value'' \<mapsto> g ''value'']" for g :: captures
    by (rule ext) (simp add: dict_update_def)
  have names: "group_names set_pattern = [''option'', ''value'']"
    by (simp add: set_pattern_def)
  show ?thesis
    by (simp add: scan_command_set_def seq_apply bnd_apply ret_apply skip_def ignore_def
        expect_match_def re_match_def remainder_def argument_def drop_skip groupdict_def
        names params set_params_def split: list.split)
qed


lemma set_tail_line:
  assumes "t \<noteq> []" and "hd t \<noteq> CHR '':''" and "hd t \<noteq> CHR ''=''" and "newline \<notin> set t"
  shows "set_tail t c = []"
  using assms(1-3) not_at_end[OF assms(1,4)] by (rule set_tail_plain)

lemma first_match:
  assumes "K < line_len s"
    and "\<And>k. k < K \<Longrightarrow> set_tail (drop (Suc k) s) (c(''option'' \<mapsto> take (Suc k) s)) = []"
    and "set_tail (drop (Suc K) s) (c(''option'' \<mapsto> take (Suc K) s)) = [x]"
  shows "\<exists>ys. rmatch set_pattern s c = x # ys"
proof -
  let ?g = "\<lambda>k. set_tail (drop (Suc k) s) (c(''option'' \<mapsto> take (Suc k) s))"
  have "rmatch set_pattern s c = ?g K @ concat (map ?g [Suc K..<line_len s])"
    unfolding rmatch_set_pattern using assms(1,2) by (rule concat_map_first)
  then show ?thesis by (simp add: assms(3))
qed

lemma match_option_value:
  assumes "newline \<notin> set (opt @ sep # val)"
    and "sep = CHR '':'' \<or> sep = CHR ''=''"
    and "opt \<noteq> []" and "CHR ''='' \<notin> set opt" and "CHR '':'' \<notin> set opt" and "val \<noteq> []"
  shows "\<exists>ys. rmatch set_pattern (opt @ sep # val) c =
           ([], c(''option'' \<mapsto> opt, ''value'' \<mapsto> val)) # ys"
proof -
  let ?s = "opt @ sep # val"
  obtain K where K: "length opt = Suc K"
    using assms(3) by (cases opt) auto
  show ?thesis
  proof (rule first_match[where K = K])
    show "K < line_len ?s"
      using K by (simp add: line_len_no_newline[OF assms(1)])
  next
    fix k assume k: "k < K"
    have t: "drop (Suc k) ?s = drop (Suc k) opt @ sep # val"
      using k K by simp
    have ne: "drop (Suc k) opt \<noteq> []" using k K by simp
    then have "hd (drop (Suc k) ?s) \<in> set opt"
      unfolding t by (metis hd_append2 hd_in_set in_set_dropD)
    with assms(4,5) have "hd (drop (Suc k) ?s) \<noteq> CHR '':''" "hd (drop (Suc k) ?s) \<noteq> CHR ''=''"
      by auto
    moreover have "drop (Suc k) ?s \<noteq> []" unfolding t by simp
    moreover have "newline \<notin> set (drop (Suc k) ?s)"
      using assms(1) by (meson in_set_dropD)
    ultimately show "set_tail (drop (Suc k) ?s) (c(''option'' \<mapsto> take (Suc k) ?s)) = []"
      by (simp add: set_tail_line)
  next
    have "newline \<notin> set val" using assms(1) by simp
    then show "set_tail (drop (Suc K) ?s) (c(''option'' \<mapsto> take (Suc K) ?s))
            = [([], c(''option'' \<mapsto> opt, ''value'' \<mapsto> val))]"
      using K assms(2,6) by (simp add: set_tail_value)
  qed
qed

lemma match_whole:
  assumes "newline \<notin> set s" and "s \<noteq> []"
    and "\<And>k. Suc k < length s \<Longrightarrow> s ! Suc k \<noteq> CHR '':'' \<and> s ! Suc k \<noteq> CHR ''=''
            \<or> (Suc (Suc k) = length s)"
  shows "\<exists>ys. rmatch set_pattern s c = ([], c(''option'' \<mapsto> s)) # ys"
proof -
  obtain K where K: "length s = Suc K"
    using assms(2) by (cases s) auto
  show ?thesis
  proof (rule first_match[where K = K])
    show "K < line_len s"
      using K by (simp add: line_len_no_newline[OF assms(1)])
  next
    fix k assume k: "k < K"
    let ?t = "drop (Suc k) s"
    have ne: "?t \<noteq> []" using k K by simp
    have nl: "newline \<notin> set ?t" using assms(1) by (meson in_set_dropD)
    have hd: "hd ?t = s ! Suc k" using k K by (simp add: hd_drop_conv_nth)
    consider "s ! Suc k \<noteq> CHR '':'' \<and> s ! Suc k \<noteq> CHR ''=''" | "Suc (Suc k) = length s"
      using assms(3)[of k] k K by auto
    then show "set_tail ?t (c(''option'' \<mapsto> take (Suc k) s)) = []"
    proof cases
      case 1
      then show ?thesis using ne nl hd by (simp add: set_tail_line)
    next
      case 2
      then have "length ?t = Suc 0" by simp
      then obtain a where "?t = [a]" by (metis length_0_conv length_Suc_conv)
      with hd have single: "?t = [s ! Suc k]" by simp
      show ?thesis
      proof (cases "s ! Suc k = CHR '':'' \<or> s ! Suc k = CHR ''=''")
        case True
        then show ?thesis unfolding single by (rule set_tail_separator)
      next
        case False
        then show ?thesis using ne nl hd by (simp add: set_tail_line)
      qed
    qed
  next
    show "set_tail (drop (Suc K) s) (c(''option'' \<mapsto> take (Suc K) s)) = [([], c(''option'' \<mapsto> s))]"
      using K by (simp add: set_tail_Nil)
  qed
qed

section \<open>The tokens of \<^verbatim>\<open>scan_command_set\<close>\<close>

lemma value_matches_caps:
  assumes "x \<in> set (value_matches v c)"
  shows "\<exists>j<length v. snd x = c(''value'' \<mapsto> take (Suc j) v)"
proof -
  from assms obtain j where j: "j < line_len v"
    and x: "x \<in> set (rmatch EndAnchor (drop (Suc j) v) (c(''value'' \<mapsto> take (Suc j) v)))"
    by (auto simp: value_matches_def)
  from x have "snd x = c(''value'' \<mapsto> take (Suc j) v)"
    by (auto split: if_splits)
  moreover have "j < length v" using j line_len_le[of v] by simp
  ultimately show ?thesis by blast
qed

lemma set_tail_caps:
  assumes "x \<in> set (set_tail t c)"
  shows "snd x = c \<or>
         (\<exists>a v j. t = a # v \<and> (a = CHR '':'' \<or> a = CHR ''='') \<and> j < length v \<and>
                  snd x = c(''value'' \<mapsto> take (Suc j) v))"
proof -
  from assms consider
      (val) a v where "t = a # v" "a = CHR '':'' \<or> a = CHR ''=''" "x \<in> set (value_matches v c)"
    | (anchor) "x \<in> set (rmatch EndAnchor t c)"
    unfolding set_tail_unfold by (auto split: list.splits if_splits simp del: rmatch.simps(3))
  then show ?thesis
  proof cases
    case val
    from value_matches_caps[OF val(3)] val(1,2) show ?thesis by blast
  next
    case anchor
    then have "snd x = c" by (auto split: if_splits)
    then show ?thesis ..
  qed
qed

lemma rmatch_set_pattern_caps:
  assumes "x \<in> set (rmatch set_pattern s c)"
  shows "\<exists>k<length s.
           snd x = c(''option'' \<mapsto> take (Suc k) s) \<or>
           (\<exists>a v j. drop (Suc k) s = a # v \<and> (a = CHR '':'' \<or> a = CHR ''='') \<and> j < length v \<and>
                    snd x = c(''option'' \<mapsto> take (Suc k) s, ''value'' \<mapsto> take (Suc j) v))"
proof -
  from assms obtain k where k: "k < line_len s"
    and x: "x \<in> set (set_tail (drop (Suc k) s) (c(''option'' \<mapsto> take (Suc k) s)))"
    unfolding rmatch_set_pattern by auto
  have "k < length s" using k line_len_le[of s] by simp
  with set_tail_caps[OF x] show ?thesis by blast
qed

lemma scan_command_set_cases:
  obtains (fail) "rmatch set_pattern (argument st) Map.empty = []"
      "fst (scan_command_set st) = Inl ValueError"
  | (match) x where "x \<in> set (rmatch set_pattern (argument st) Map.empty)"
      "fst (scan_command_set st) = Inr (None, [TokenSet (set_params (snd x)), TokenEof])"
proof (cases "rmatch set_pattern (argument st) Map.empty")
  case Nil
  then show ?thesis using fail by (simp add: scan_command_set_run)
next
  case (Cons x xs)
  then show ?thesis using match[of x] by (simp add: scan_command_set_run)
qed

lemma scan_command_set_first:
  assumes "\<exists>ys. rmatch set_pattern (argument st) Map.empty = x # ys"
  shows "fst (scan_command_set st) = Inr (None, [TokenSet (set_params (snd x)), TokenEof])"
  using assms by (auto simp: scan_command_set_run)

lemma token_option_TokenSet: "token_option (TokenSet ps) = ps ''option''"
  by (simp add: TokenSet_def)

lemma token_value_TokenSet: "token_value (TokenSet ps) = ps ''value''"
  by (simp add: TokenSet_def)

lemmas rmatch_eval = rmatch_set_pattern set_tail_unfold value_matches_def line_len_def newline_def
  upt_conv_Cons

text \<open>
  C5. Whenever \<^verbatim>\<open>scan_command_set\<close> succeeds it returns the pair of \<^verbatim>\<open>None\<close> and a
  list of exactly two tokens, a \<^verbatim>\<open>TokenSet\<close> and a \<^verbatim>\<open>TokenEof\<close>; the
  \<^verbatim>\<open>TokenSet\<close> carries the command name \<^verbatim>\<open>'set'\<close> and the target command
  \<^verbatim>\<open>'ex_set'\<close>.
\<close>

theorem scan_command_set_returns:
  assumes "fst (scan_command_set st) = Inr r"
  shows "fst r = None \<and>
         (\<exists>ps. snd r = [TokenOfCommand \<lparr>token_type = TOKEN_COMMAND_SET, content = ''set'',
                                        params = ps, target_command = ''ex_set''\<rparr>, TokenEof])"
  using assms by (cases st rule: scan_command_set_cases) (auto simp: TokenSet_def)

theorem scan_command_set_returns_witness:
  "\<exists>r. fst (scan_command_set \<lparr>source = ''set wrap=80'', position = 3, start = 0\<rparr>) = Inr r \<and>
       fst r = None \<and>
       (\<exists>ps. snd r = [TokenOfCommand \<lparr>token_type = TOKEN_COMMAND_SET, content = ''set'',
                                      params = ps, target_command = ''ex_set''\<rparr>, TokenEof])"
proof -
  let ?st = "\<lparr>source = ''set wrap=80'', position = 3, start = 0\<rparr>"
  have "\<exists>r. fst (scan_command_set ?st) = Inr r"
    by (simp add: scan_command_set_run argument_def remainder_def rmatch_eval)
  then obtain r where r: "fst (scan_command_set ?st) = Inr r" ..
  from r scan_command_set_returns[OF r] show ?thesis by blast
qed

text \<open>
  C8. When nothing is left of the argument after the leading spaces,
  \<^verbatim>\<open>scan_command_set\<close> fails with the \<^verbatim>\<open>ValueError\<close> of \<^verbatim>\<open>expect_match\<close>; and
  whenever it succeeds, the parameter \<^verbatim>\<open>'option'\<close> is a non-empty string, never
  \<^verbatim>\<open>None\<close>.
\<close>

theorem scan_command_set_option_nonempty:
  "(argument st = [] \<longrightarrow> fst (scan_command_set st) = Inl ValueError) \<and>
   (\<forall>r. fst (scan_command_set st) = Inr r \<longrightarrow>
      (\<exists>ps opt. snd r = [TokenSet ps, TokenEof] \<and> ps ''option'' = Some (Some opt) \<and> opt \<noteq> []))"
proof (intro conjI impI allI)
  assume "argument st = []"
  then have "rmatch set_pattern (argument st) Map.empty = []"
    by (simp add: rmatch_set_pattern line_len_def)
  then show "fst (scan_command_set st) = Inl ValueError"
    by (simp add: scan_command_set_run)
next
  fix r assume r: "fst (scan_command_set st) = Inr r"
  show "\<exists>ps opt. snd r = [TokenSet ps, TokenEof] \<and> ps ''option'' = Some (Some opt) \<and> opt \<noteq> []"
  proof (cases st rule: scan_command_set_cases)
    case fail
    with r show ?thesis by simp
  next
    case (match x)
    from rmatch_set_pattern_caps[OF match(1)] obtain k where k: "k < length (argument st)"
      and "snd x ''option'' = Some (take (Suc k) (argument st))"
      by auto
    then have "set_params (snd x) ''option'' = Some (Some (take (Suc k) (argument st)))"
      "take (Suc k) (argument st) \<noteq> []"
      by (auto simp: set_params_def)
    moreover have "snd r = [TokenSet (set_params (snd x)), TokenEof]"
      using r match(2) by auto
    ultimately show ?thesis by blast
  qed
qed

theorem scan_command_set_option_nonempty_witness:
  "argument \<lparr>source = ''set   '', position = 3, start = 0\<rparr> = [] \<and>
   fst (scan_command_set \<lparr>source = ''set   '', position = 3, start = 0\<rparr>) = Inl ValueError \<and>
   (\<exists>r ps opt. fst (scan_command_set \<lparr>source = ''set ic'', position = 3, start = 0\<rparr>) = Inr r \<and>
      snd r = [TokenSet ps, TokenEof] \<and> ps ''option'' = Some (Some opt) \<and> opt \<noteq> [])"
proof -
  let ?st = "\<lparr>source = ''set ic'', position = 3, start = 0\<rparr>"
  let ?e = "\<lparr>source = ''set   '', position = 3, start = 0\<rparr>"
  have arg: "argument ?e = []"
    by (simp add: argument_def remainder_def)
  have "\<exists>r. fst (scan_command_set ?st) = Inr r"
    by (simp add: scan_command_set_run argument_def remainder_def rmatch_eval)
  then obtain r where r: "fst (scan_command_set ?st) = Inr r" ..
  from scan_command_set_option_nonempty[of ?e] scan_command_set_option_nonempty[of ?st] arg r
  show ?thesis by blast
qed

lemma no_separator_split:
  assumes "CHR ''='' \<notin> set s" and "CHR '':'' \<notin> set s"
  shows "\<forall>opt sep val. s = opt @ sep # val \<and> (sep = CHR ''='' \<or> sep = CHR '':'')
                \<longrightarrow> opt = [] \<or> val = []"
proof (intro allI impI)
  fix opt sep val
  assume h: "s = opt @ sep # val \<and> (sep = CHR ''='' \<or> sep = CHR '':'')"
  then have "sep \<in> set s" by simp
  with h assms have False by auto
  then show "opt = [] \<or> val = []" ..
qed

text \<open>
  C4. The parameters of the token that \<^verbatim>\<open>scan_command_set\<close> returns always have
  both keys \<^verbatim>\<open>'option'\<close> and \<^verbatim>\<open>'value'\<close>; and when the argument does not
  consist of a non-empty text, a separator \<^verbatim>\<open>=\<close> or \<^verbatim>\<open>:\<close> and a non-empty
  text, the parameter \<^verbatim>\<open>'value'\<close> is \<^verbatim>\<open>None\<close>.
\<close>

theorem scan_command_set_params:
  assumes "fst (scan_command_set st) = Inr r"
  shows "\<exists>ps. snd r = [TokenSet ps, TokenEof] \<and> dom ps = {''option'', ''value''} \<and>
           ((\<forall>opt sep val. argument st = opt @ sep # val \<and> (sep = CHR ''='' \<or> sep = CHR '':'')
                \<longrightarrow> opt = [] \<or> val = [])
            \<longrightarrow> ps ''value'' = Some None)"
proof (cases st rule: scan_command_set_cases)
  case fail
  with assms show ?thesis by simp
next
  case (match x)
  define s where "s = argument st"
  have r: "snd r = [TokenSet (set_params (snd x)), TokenEof]"
    using assms match(2) by auto
  have keys: "dom (set_params (snd x)) = {''option'', ''value''}"
    by (auto simp: set_params_def)
  have val: "set_params (snd x) ''value'' = Some None"
    if none: "\<forall>opt sep val. s = opt @ sep # val \<and> (sep = CHR ''='' \<or> sep = CHR '':'')
                \<longrightarrow> opt = [] \<or> val = []"
  proof -
    from rmatch_set_pattern_caps[OF match(1)] obtain k where k: "k < length s"
      and caps: "snd x = [''option'' \<mapsto> take (Suc k) s] \<or>
        (\<exists>a v j. drop (Suc k) s = a # v \<and> (a = CHR '':'' \<or> a = CHR ''='') \<and> j < length v \<and>
                 snd x = [''option'' \<mapsto> take (Suc k) s, ''value'' \<mapsto> take (Suc j) v])"
      unfolding s_def by blast
    from caps show ?thesis
    proof
      assume "snd x = [''option'' \<mapsto> take (Suc k) s]"
      then show ?thesis by (simp add: set_params_def)
    next
      assume "\<exists>a v j. drop (Suc k) s = a # v \<and> (a = CHR '':'' \<or> a = CHR ''='') \<and> j < length v \<and>
                 snd x = [''option'' \<mapsto> take (Suc k) s, ''value'' \<mapsto> take (Suc j) v]"
      then obtain a v j where d: "drop (Suc k) s = a # v" and a: "a = CHR '':'' \<or> a = CHR ''=''"
        and j: "j < length v" by blast
      have "take (Suc k) s @ drop (Suc k) s = s"
        by (rule append_take_drop_id)
      then have "s = take (Suc k) s @ a # v"
        by (simp only: d)
      moreover from a have "a = CHR ''='' \<or> a = CHR '':''" by blast
      ultimately have "s = take (Suc k) s @ a # v \<and> (a = CHR ''='' \<or> a = CHR '':'')" ..
      then have "take (Suc k) s = [] \<or> v = []"
        by (rule none[rule_format])
      with k j have False by auto
      then show ?thesis ..
    qed
  qed
  show ?thesis
  proof (intro exI[of _ "set_params (snd x)"] conjI impI)
    show "snd r = [TokenSet (set_params (snd x)), TokenEof]" by (rule r)
    show "dom (set_params (snd x)) = {''option'', ''value''}" by (rule keys)
    assume "\<forall>opt sep val. argument st = opt @ sep # val \<and> (sep = CHR ''='' \<or> sep = CHR '':'')
                \<longrightarrow> opt = [] \<or> val = []"
    then show "set_params (snd x) ''value'' = Some None"
      unfolding s_def[symmetric] by (rule val)
  qed
qed

theorem scan_command_set_params_witness:
  "\<exists>r ps. fst (scan_command_set \<lparr>source = ''set hlsearch'', position = 3, start = 0\<rparr>) = Inr r \<and>
          snd r = [TokenSet ps, TokenEof] \<and> dom ps = {''option'', ''value''} \<and>
          ps ''value'' = Some None"
proof -
  let ?st = "\<lparr>source = ''set hlsearch'', position = 3, start = 0\<rparr>"
  have arg: "argument ?st = ''hlsearch''"
    by (simp add: argument_def remainder_def)
  have "\<exists>r. fst (scan_command_set ?st) = Inr r"
    by (simp add: scan_command_set_run arg rmatch_eval)
  then obtain r where r: "fst (scan_command_set ?st) = Inr r" ..
  have none: "\<forall>opt sep val. argument ?st = opt @ sep # val \<and> (sep = CHR ''='' \<or> sep = CHR '':'')
                \<longrightarrow> opt = [] \<or> val = []"
    unfolding arg by (rule no_separator_split) simp_all
  from scan_command_set_params[OF r] obtain ps where
    ps: "snd r = [TokenSet ps, TokenEof] \<and> dom ps = {''option'', ''value''} \<and>
      ((\<forall>opt sep val. argument ?st = opt @ sep # val \<and> (sep = CHR ''='' \<or> sep = CHR '':'')
                \<longrightarrow> opt = [] \<or> val = []) \<longrightarrow> ps ''value'' = Some None)" ..
  from ps have p1: "snd r = [TokenSet ps, TokenEof]" by (rule conjunct1)
  from ps have p2: "dom ps = {''option'', ''value''}" by (rule conjunct2[THEN conjunct1])
  from ps have "(\<forall>opt sep val. argument ?st = opt @ sep # val \<and> (sep = CHR ''='' \<or> sep = CHR '':'')
                \<longrightarrow> opt = [] \<or> val = []) \<longrightarrow> ps ''value'' = Some None"
    by (rule conjunct2[THEN conjunct2])
  then have p3: "ps ''value'' = Some None" using none by (rule mp)
  show ?thesis
    by (intro exI[of _ r] exI[of _ ps] conjI) (rule r p1 p2 p3)+
qed

lemma scan_command_set_captured:
  assumes "\<exists>ys. rmatch set_pattern (argument st) Map.empty = ([], caps) # ys"
  shows "\<exists>ps. fst (scan_command_set st) = Inr (None, [TokenSet ps, TokenEof]) \<and>
              token_option (TokenSet ps) = Some (caps ''option'') \<and>
              token_value (TokenSet ps) = Some (caps ''value'')"
proof (intro exI[of _ "set_params caps"] conjI)
  show "fst (scan_command_set st) = Inr (None, [TokenSet (set_params caps), TokenEof])"
    using scan_command_set_first[OF assms] by simp
  show "token_option (TokenSet (set_params caps)) = Some (caps ''option'')"
    by (simp add: token_option_TokenSet set_params_def)
  show "token_value (TokenSet (set_params caps)) = Some (caps ''value'')"
    by (simp add: token_value_TokenSet set_params_def)
qed

text \<open>
  C1, amended. Let the argument, leading spaces skipped, contain no newline. If it is
  \<open>opt\<close>, a separator \<^verbatim>\<open>=\<close> or \<^verbatim>\<open>:\<close>, and \<open>val\<close>, where \<open>opt\<close> is non-empty
  and contains no separator and \<open>val\<close> is non-empty, then \<^verbatim>\<open>scan_command_set\<close>
  produces a \<^verbatim>\<open>TokenSet\<close> whose option is \<open>opt\<close> and whose value is \<open>val\<close>: the
  text is split at the first separator. If it is non-empty and contains no separator, the
  option is the whole argument and the value is \<^verbatim>\<open>None\<close>.
\<close>

theorem scan_command_set_option_value:
  assumes "newline \<notin> set (argument st)"
  shows "(argument st = opt @ sep # val \<and> (sep = CHR ''='' \<or> sep = CHR '':'') \<and> opt \<noteq> [] \<and>
          CHR ''='' \<notin> set opt \<and> CHR '':'' \<notin> set opt \<and> val \<noteq> [] \<longrightarrow>
          (\<exists>ps. fst (scan_command_set st) = Inr (None, [TokenSet ps, TokenEof]) \<and>
                token_option (TokenSet ps) = Some (Some opt) \<and>
                token_value (TokenSet ps) = Some (Some val)))
       \<and> (argument st \<noteq> [] \<and> CHR ''='' \<notin> set (argument st) \<and> CHR '':'' \<notin> set (argument st) \<longrightarrow>
          (\<exists>ps. fst (scan_command_set st) = Inr (None, [TokenSet ps, TokenEof]) \<and>
                token_option (TokenSet ps) = Some (Some (argument st)) \<and>
                token_value (TokenSet ps) = Some None))"
proof (intro conjI impI)
  assume h: "argument st = opt @ sep # val \<and> (sep = CHR ''='' \<or> sep = CHR '':'') \<and> opt \<noteq> [] \<and>
          CHR ''='' \<notin> set opt \<and> CHR '':'' \<notin> set opt \<and> val \<noteq> []"
  then have arg: "argument st = opt @ sep # val" by (rule conjunct1)
  have "\<exists>ys. rmatch set_pattern (opt @ sep # val) Map.empty =
           ([], [''option'' \<mapsto> opt, ''value'' \<mapsto> val]) # ys"
  proof (rule match_option_value)
    show "newline \<notin> set (opt @ sep # val)" using assms unfolding arg .
    show "sep = CHR '':'' \<or> sep = CHR ''=''" using h by auto
    show "opt \<noteq> []" "CHR ''='' \<notin> set opt" "CHR '':'' \<notin> set opt" "val \<noteq> []"
      using h by simp_all
  qed
  then have "\<exists>ys. rmatch set_pattern (argument st) Map.empty =
           ([], [''option'' \<mapsto> opt, ''value'' \<mapsto> val]) # ys"
    unfolding arg .
  from scan_command_set_captured[OF this]
  show "\<exists>ps. fst (scan_command_set st) = Inr (None, [TokenSet ps, TokenEof]) \<and>
                token_option (TokenSet ps) = Some (Some opt) \<and>
                token_value (TokenSet ps) = Some (Some val)"
    by simp
next
  assume h: "argument st \<noteq> [] \<and> CHR ''='' \<notin> set (argument st) \<and> CHR '':'' \<notin> set (argument st)"
  have "\<exists>ys. rmatch set_pattern (argument st) Map.empty =
           ([], [''option'' \<mapsto> argument st]) # ys"
  proof (rule match_whole)
    show "newline \<notin> set (argument st)" by (rule assms)
    show "argument st \<noteq> []" using h by simp
    fix k assume "Suc k < length (argument st)"
    then have "argument st ! Suc k \<in> set (argument st)" by simp
    with h show "argument st ! Suc k \<noteq> CHR '':'' \<and> argument st ! Suc k \<noteq> CHR ''=''
            \<or> Suc (Suc k) = length (argument st)"
      by metis
  qed
  from scan_command_set_captured[OF this]
  show "\<exists>ps. fst (scan_command_set st) = Inr (None, [TokenSet ps, TokenEof]) \<and>
                token_option (TokenSet ps) = Some (Some (argument st)) \<and>
                token_value (TokenSet ps) = Some None"
    by simp
qed

theorem scan_command_set_option_value_witness:
  "(\<exists>ps. fst (scan_command_set \<lparr>source = ''set a=b=c'', position = 3, start = 0\<rparr>)
           = Inr (None, [TokenSet ps, TokenEof]) \<and>
         token_option (TokenSet ps) = Some (Some ''a'') \<and>
         token_value (TokenSet ps) = Some (Some ''b=c'')) \<and>
   (\<exists>ps. fst (scan_command_set \<lparr>source = ''set  wrap'', position = 3, start = 0\<rparr>)
           = Inr (None, [TokenSet ps, TokenEof]) \<and>
         token_option (TokenSet ps) = Some (Some ''wrap'') \<and>
         token_value (TokenSet ps) = Some None)"
proof
  let ?st = "\<lparr>source = ''set a=b=c'', position = 3, start = 0\<rparr>"
  have arg: "argument ?st = ''a'' @ CHR ''='' # ''b=c''"
    by (simp add: argument_def remainder_def)
  have nl: "newline \<notin> set (argument ?st)"
    by (simp add: arg newline_def)
  from scan_command_set_option_value[OF nl, of "''a''" "CHR ''=''" "''b=c''", THEN conjunct1] arg
  show "\<exists>ps. fst (scan_command_set ?st) = Inr (None, [TokenSet ps, TokenEof]) \<and>
         token_option (TokenSet ps) = Some (Some ''a'') \<and>
         token_value (TokenSet ps) = Some (Some ''b=c'')"
    by simp
next
  let ?st = "\<lparr>source = ''set  wrap'', position = 3, start = 0\<rparr>"
  have arg: "argument ?st = ''wrap''"
    by (simp add: argument_def remainder_def)
  have nl: "newline \<notin> set (argument ?st)"
    by (simp add: arg newline_def)
  from scan_command_set_option_value[OF nl, THEN conjunct2]
  show "\<exists>ps. fst (scan_command_set ?st) = Inr (None, [TokenSet ps, TokenEof]) \<and>
         token_option (TokenSet ps) = Some (Some ''wrap'') \<and>
         token_value (TokenSet ps) = Some None"
    by (simp add: arg)
qed

text \<open>
  Without the condition on newlines the claim fails: in \<^verbatim>\<open>a=b\<close> followed by a
  newline, the value \<^verbatim>\<open>b\<close> does not include the newline, since \<^verbatim>\<open>.\<close> does not
  match a newline and \<^verbatim>\<open>$\<close> matches before a final one.
\<close>

theorem scan_command_set_newline_counterexample:
  "argument \<lparr>source = ''set a=b'' @ [newline], position = 3, start = 0\<rparr>
     = ''a'' @ CHR ''='' # (''b'' @ [newline]) \<and>
   fst (scan_command_set \<lparr>source = ''set a=b'' @ [newline], position = 3, start = 0\<rparr>)
     = Inr (None, [TokenSet [''option'' \<mapsto> Some ''a'', ''value'' \<mapsto> Some ''b''], TokenEof]) \<and>
   token_value (TokenSet [''option'' \<mapsto> Some ''a'', ''value'' \<mapsto> Some ''b''])
     \<noteq> Some (Some (''b'' @ [newline]))"
  by (simp add: scan_command_set_run argument_def remainder_def rmatch_eval set_params_def
      token_value_TokenSet)

text \<open>
  C9, amended. If the argument, leading spaces skipped, is \<open>opt\<close> followed by one
  separator \<^verbatim>\<open>=\<close> or \<^verbatim>\<open>:\<close> and nothing else, where \<open>opt\<close> contains no newline
  and no separator after its first character, then the option of the token is the whole
  argument, the final separator included, and its value is \<^verbatim>\<open>None\<close>.
\<close>

theorem scan_command_set_trailing_separator:
  assumes "argument st = opt @ [sep]" and "sep = CHR ''='' \<or> sep = CHR '':''"
    and "newline \<notin> set opt" and "CHR ''='' \<notin> set (tl opt)" and "CHR '':'' \<notin> set (tl opt)"
  shows "\<exists>ps. fst (scan_command_set st) = Inr (None, [TokenSet ps, TokenEof]) \<and>
              token_option (TokenSet ps) = Some (Some (opt @ [sep])) \<and>
              token_value (TokenSet ps) = Some None"
proof -
  let ?s = "opt @ [sep]"
  have "\<exists>ys. rmatch set_pattern ?s Map.empty = ([], [''option'' \<mapsto> ?s]) # ys"
  proof (rule match_whole)
    have "sep \<noteq> newline" using assms(2) by (auto simp: newline_def)
    then show "newline \<notin> set ?s" using assms(3) by auto
    show "?s \<noteq> []" by simp
    fix k assume k: "Suc k < length ?s"
    show "?s ! Suc k \<noteq> CHR '':'' \<and> ?s ! Suc k \<noteq> CHR ''='' \<or> Suc (Suc k) = length ?s"
    proof (cases "Suc k < length opt")
      case True
      then have "?s ! Suc k = tl opt ! k" and "k < length (tl opt)"
        by (simp_all add: nth_append nth_tl)
      then have "?s ! Suc k \<in> set (tl opt)" by (metis nth_mem)
      with assms(4,5) show ?thesis by metis
    next
      case False
      with k have "Suc (Suc k) = length ?s" by simp
      then show ?thesis ..
    qed
  qed
  then have "\<exists>ys. rmatch set_pattern (argument st) Map.empty = ([], [''option'' \<mapsto> ?s]) # ys"
    unfolding assms(1) .
  from scan_command_set_captured[OF this] show ?thesis by simp
qed

theorem scan_command_set_trailing_separator_witness:
  "\<exists>ps. fst (scan_command_set \<lparr>source = ''set wrap='', position = 3, start = 0\<rparr>)
          = Inr (None, [TokenSet ps, TokenEof]) \<and>
        token_option (TokenSet ps) = Some (Some ''wrap='') \<and>
        token_value (TokenSet ps) = Some None"
proof -
  let ?st = "\<lparr>source = ''set wrap='', position = 3, start = 0\<rparr>"
  have arg: "argument ?st = ''wrap'' @ [CHR ''='']"
    by (simp add: argument_def remainder_def)
  from scan_command_set_trailing_separator[OF arg] show ?thesis
    by (simp add: newline_def)
qed

text \<open>
  With a separator inside \<open>opt\<close> the claim fails: \<^verbatim>\<open>a=b=\<close> is split at its first
  separator, into the option \<^verbatim>\<open>a\<close> and the value \<^verbatim>\<open>b=\<close>.
\<close>

theorem scan_command_set_inner_separator_counterexample:
  "argument \<lparr>source = ''set a=b='', position = 3, start = 0\<rparr> = ''a=b'' @ [CHR ''=''] \<and>
   fst (scan_command_set \<lparr>source = ''set a=b='', position = 3, start = 0\<rparr>)
     = Inr (None, [TokenSet [''option'' \<mapsto> Some ''a'', ''value'' \<mapsto> Some ''b=''], TokenEof]) \<and>
   token_option (TokenSet [''option'' \<mapsto> Some ''a'', ''value'' \<mapsto> Some ''b=''])
     \<noteq> Some (Some ''a=b='') \<and>
   token_value (TokenSet [''option'' \<mapsto> Some ''a'', ''value'' \<mapsto> Some ''b='']) \<noteq> Some None"
  by (simp add: scan_command_set_run argument_def remainder_def rmatch_eval set_params_def
      token_value_TokenSet token_option_TokenSet)

end
